theory Spec2Isabelle
  imports Complex_Main
begin

section \<open>The balance scheduler of btrfs-smr-balance.py\<close>

text \<open>
  The script balances a btrfs filesystem one chunk at a time. Each pass of its loop reads
  the devices of the filesystem, exits once the standard deviation of their unallocated
  space is below a limit, and otherwise balances one chunk of the device with the least
  unallocated space, measures how long the pass took and sleeps for a Fibonacci number
  of seconds whose index moves up after a slow pass and down after a fast one.

  Python integers are modelled as \<open>int\<close>. The script has two floating-point quantities.
  The value of \<open>statistics.stdev\<close> is the real number that the double stands for: the exact
  standard deviation rounded to the nearest double. The measured duration is whatever the
  clock gives, a real number here. Python compares a float with an integer by their exact
  values, as the model does.
\<close>

subsection \<open>Configuration\<close>

text \<open>The four module constants at the head of the script, to be set per environment.\<close>

record config =
  FILESYSTEM :: string
  CHUNK_TIMEOUT :: real
  MAX_SLEEP :: real
  STDEV_LIMIT :: real

definition default_config :: config where
  "default_config =
     \<lparr>FILESYSTEM = ''/media/btrfs'',
      CHUNK_TIMEOUT = 60,
      MAX_SLEEP = 7200,
      STDEV_LIMIT = 5 * 1024 * 1024 * 1024\<rparr>"

subsection \<open>The sleep sequence\<close>

text \<open>
  \<open>fib\<close> as the script defines it, on every Python integer. The \<open>lru_cache\<close> decorator
  stores results and does not change them.
\<close>

function fib :: "int \<Rightarrow> int" where
  "fib n = (if n < 2 then 1 else fib (n - 2) + fib (n - 1))"
  by pat_completeness auto
termination
  by (relation "measure (\<lambda>n. nat n)") auto

declare fib.simps [simp del]

subsection \<open>Effects and results\<close>

text \<open>
  The exceptions that \<open>statistics.stdev\<close> raises: on fewer than two values, and on a result
  beyond the largest double. Nothing in the script catches them.
\<close>

datatype error = StatisticsError | OverflowError

text \<open>
  What a pass does to the outside world, in order: the balance command it runs (the command
  line), the warning it logs (the output of a failed command) and the calls of
  \<open>time.sleep\<close> (seconds). Log lines of level info are left out.
\<close>

datatype action = Balance string | Warning string | Sleep int

text \<open>
  How a call ends: it returns, it calls \<open>sys.exit\<close> (with or without a status), or an
  exception leaves it.
\<close>

datatype 'a result = Return 'a | SystemExit "int option" | Raise error

text \<open>
  The exit status of the process: \<open>sys.exit()\<close> without an argument is status 0, an
  integer argument is the status modulo 256, an uncaught exception is status 1. A call that
  returns keeps the loop running, so there is no status.
\<close>

fun exit_status :: "'a result \<Rightarrow> int option" where
  "exit_status (Return _) = None"
| "exit_status (SystemExit None) = Some 0"
| "exit_status (SystemExit (Some n)) = Some (n mod 256)"
| "exit_status (Raise _) = Some 1"

subsection \<open>Devices\<close>

text \<open>
  One line of \<open>btrfs fi show --raw | grep devid\<close> as the loop body of \<open>bal_chunk\<close> reads it:
  fields 1, 3, 5 and 7 of the line, the second and third converted by \<open>int\<close>. Splitting
  the text and converting the numbers happen before the code modelled here; a line with too
  few fields or a field that is not a number raises there. The script always reads at least
  one line: an empty output of the command is one empty line, whose field access raises. The
  empty list of devices is kept for what the code after the loop does when no value has
  been collected.
\<close>

record device =
  devid :: string
  size :: int
  used :: int
  path :: string

text \<open>
  The running minimum of \<open>bal_chunk\<close> starts as \<open>float('inf')\<close>, which every integer is
  below.
\<close>

datatype least = FloatInf | IntVal int

fun less_least :: "int \<Rightarrow> least \<Rightarrow> bool" where
  "less_least x FloatInf = True"
| "less_least x (IntVal y) = (x < y)"

text \<open>The local variables of \<open>bal_chunk\<close> that its \<open>for\<close> loop updates.\<close>

record scan =
  least_empty_dev_id :: "string option"
  least_empty_dev_path :: "string option"
  least_empty_dev_unallocated :: least
  free :: "int list"

definition scan_init :: scan where
  "scan_init =
     \<lparr>least_empty_dev_id = None,
      least_empty_dev_path = None,
      least_empty_dev_unallocated = FloatInf,
      free = []\<rparr>"

text \<open>One pass of the \<open>for\<close> loop body.\<close>

definition scan_step :: "scan \<Rightarrow> device \<Rightarrow> scan" where
  "scan_step st d =
     (let unallocated = size d - used d;
          st1 = st\<lparr>free := free st @ [unallocated]\<rparr>
      in if less_least unallocated (least_empty_dev_unallocated st1)
         then st1\<lparr>least_empty_dev_id := Some (devid d),
                  least_empty_dev_path := Some (path d),
                  least_empty_dev_unallocated := IntVal unallocated\<rparr>
         else st1)"

definition scan_devices :: "device list \<Rightarrow> scan" where
  "scan_devices ds = foldl scan_step scan_init ds"

subsection \<open>Standard deviation\<close>

text \<open>
  Rounding to the nearest double. \<open>round_half_even\<close> is the nearest integer, the even one of
  the two when they are equally near. \<open>ulp\<close> is the distance between neighbouring doubles at
  a positive real: the significand has 53 bits, and below \<open>2 powr - 1022\<close> the doubles are
  evenly spaced. \<open>float_round\<close> is the nearest multiple of that distance.
\<close>

definition round_half_even :: "real \<Rightarrow> int" where
  "round_half_even y =
     (let f = \<lfloor>y\<rfloor>
      in if y - of_int f < 1 / 2 then f
         else if 1 / 2 < y - of_int f then f + 1
         else if even f then f else f + 1)"

definition ulp :: "real \<Rightarrow> real" where
  "ulp x = 2 powr (of_int (max \<lfloor>log 2 x\<rfloor> (- 1022)) - 52)"

definition float_round :: "real \<Rightarrow> real" where
  "float_round x = sgn x * (of_int (round_half_even (\<bar>x\<bar> / ulp \<bar>x\<bar>)) * ulp \<bar>x\<bar>)"

text \<open>
  \<open>statistics.stdev\<close> of the Python library, on integers: the square root of the sample
  variance, the sum of the squared deviations from the mean over one less than the number of
  values. Python (3.11 and later) computes the variance exactly, as a fraction, and rounds
  its square root once, to the nearest double. It raises \<open>StatisticsError\<close> on fewer than
  two values and \<open>OverflowError\<close> when the rounded result is not a finite double.
\<close>

definition mean :: "int list \<Rightarrow> real" where
  "mean xs = real_of_int (sum_list xs) / real (length xs)"

definition variance :: "int list \<Rightarrow> real" where
  "variance xs =
     sum_list (map (\<lambda>x. (real_of_int x - mean xs)\<^sup>2) xs) / (real (length xs) - 1)"

definition stdev :: "int list \<Rightarrow> error + real" where
  "stdev xs =
     (if length xs < 2 then Inl StatisticsError
      else let sd = float_round (sqrt (variance xs))
           in if 2 ^ 1024 \<le> sd then Inl OverflowError else Inr sd)"

subsection \<open>One balance operation\<close>

text \<open>\<open>str\<close> of the device id, which is \<open>None\<close> until the loop has seen a device.\<close>

fun str_option :: "string option \<Rightarrow> string" where
  "str_option None = ''None''"
| "str_option (Some s) = s"

definition balance_cmd :: "config \<Rightarrow> string option \<Rightarrow> string" where
  "balance_cmd cfg dev =
     ''btrfs balance start -ddevid='' @ str_option dev @ '',limit=1 '' @ FILESYSTEM cfg"

text \<open>
  \<open>bal_chunk\<close>, given what the outside world answers: the devices that \<open>btrfs fi show\<close>
  lists, and the status and output of the balance command. It gives how the call ends and
  what it did.
\<close>

definition bal_chunk :: "config \<Rightarrow> device list \<Rightarrow> int \<Rightarrow> string \<Rightarrow> unit result \<times> action list" where
  "bal_chunk cfg ds ret out =
     (let st = scan_devices ds
      in case stdev (free st) of
           Inl e \<Rightarrow> (Raise e, [])
         | Inr sd \<Rightarrow>
             if sd < STDEV_LIMIT cfg then (SystemExit None, [])
             else (Return (),
                   Balance (balance_cmd cfg (least_empty_dev_id st)) #
                   (if ret \<noteq> 0 then [Warning out, Sleep 30] else [])))"

subsection \<open>The balancing loop\<close>

text \<open>What the outside world answers during one pass of the loop.\<close>

record pass =
  devices :: "device list"
  ret :: int
  out :: string
  duration :: real

text \<open>The adjustment of the backoff index after a pass that took \<open>duration\<close> seconds.\<close>

definition adjust :: "config \<Rightarrow> int \<Rightarrow> real \<Rightarrow> int" where
  "adjust cfg backoff dur =
     (if dur > CHUNK_TIMEOUT cfg
      then (if real_of_int (fib (backoff + 1)) < MAX_SLEEP cfg then backoff + 1 else backoff)
      else (if backoff > 1 then backoff - 2
            else if backoff > 0 then backoff - 1
            else backoff))"

text \<open>
  \<open>fib_sleep\<close>: the call of \<open>time.sleep\<close> with the term of the index. The log line with the
  time of waking is left out.
\<close>

definition fib_sleep :: "int \<Rightarrow> action list" where
  "fib_sleep index = [Sleep (fib index)]"

text \<open>
  The body of the \<open>while\<close> loop: the result carries the new backoff index when the pass
  completes.
\<close>

definition loop_body :: "config \<Rightarrow> int \<Rightarrow> pass \<Rightarrow> int result \<times> action list" where
  "loop_body cfg backoff p =
     (case bal_chunk cfg (devices p) (ret p) (out p) of
        (Return _, acts) \<Rightarrow>
          (let backoff1 = adjust cfg backoff (duration p)
           in (Return backoff1, acts @ fib_sleep backoff1))
      | (SystemExit c, acts) \<Rightarrow> (SystemExit c, acts)
      | (Raise e, acts) \<Rightarrow> (Raise e, acts))"

text \<open>
  The \<open>while True\<close> loop over the answers of the outside world to its successive passes. It
  ends only by exit or exception; when the answers run out it is still running, with the
  backoff index it has reached.
\<close>

fun main_loop :: "config \<Rightarrow> int \<Rightarrow> pass list \<Rightarrow> int result \<times> action list" where
  "main_loop cfg backoff [] = (Return backoff, [])"
| "main_loop cfg backoff (p # ps) =
     (case loop_body cfg backoff p of
        (Return backoff1, acts) \<Rightarrow>
          (case main_loop cfg backoff1 ps of (r, acts1) \<Rightarrow> (r, acts @ acts1))
      | (SystemExit c, acts) \<Rightarrow> (SystemExit c, acts)
      | (Raise e, acts) \<Rightarrow> (Raise e, acts))"

subsection \<open>Observing the loop\<close>

text \<open>
  The backoff indices that the loop goes through, from a starting index, when its passes
  take the given durations: the starting index first, then the index after each pass.
\<close>

fun trajectory :: "config \<Rightarrow> int \<Rightarrow> real list \<Rightarrow> int list" where
  "trajectory cfg backoff [] = [backoff]"
| "trajectory cfg backoff (d # ds) = backoff # trajectory cfg (adjust cfg backoff d) ds"

text \<open>The unallocated space of a device, which the loop of \<open>bal_chunk\<close> computes per line.\<close>

definition unallocated_bytes :: "device \<Rightarrow> int" where
  "unallocated_bytes d = size d - used d"

text \<open>
  Device \<open>i\<close> of the list is the one that \<open>bal_chunk\<close> ends its scan with: no device has
  less unallocated space, every device before it has more, and the three variables of the
  scan hold its id, its path and its unallocated space.
\<close>

definition selects :: "device list \<Rightarrow> nat \<Rightarrow> bool" where
  "selects ds i \<longleftrightarrow>
     i < length ds \<and>
     (\<forall>j<length ds. unallocated_bytes (ds ! i) \<le> unallocated_bytes (ds ! j)) \<and>
     (\<forall>j<i. unallocated_bytes (ds ! i) < unallocated_bytes (ds ! j)) \<and>
     least_empty_dev_id (scan_devices ds) = Some (devid (ds ! i)) \<and>
     least_empty_dev_path (scan_devices ds) = Some (path (ds ! i)) \<and>
     least_empty_dev_unallocated (scan_devices ds) = IntVal (unallocated_bytes (ds ! i))"

text \<open>
  No balance command follows another without a sleep of at least one second between them.
  The flag says that a balance command has run and no such sleep has followed it yet.
\<close>

fun spaced :: "bool \<Rightarrow> action list \<Rightarrow> bool" where
  "spaced owed [] = True"
| "spaced owed (Balance c # acts) = (\<not> owed \<and> spaced True acts)"
| "spaced owed (Warning w # acts) = spaced owed acts"
| "spaced owed (Sleep s # acts) = spaced (owed \<and> s < 1) acts"

subsection \<open>Example devices\<close>

text \<open>
  Four lists of devices for the examples: unallocated space of 0, 0 and 40 GiB; of 10 GiB
  on each of three devices; of 50 GiB and 50.0001 GiB on two; and of 0, 3002970418 and
  10429292294 bytes, whose standard deviation is less than a millionth of a byte below
  5 GiB.
\<close>

definition skewed_devices :: "device list" where
  "skewed_devices =
     [\<lparr>devid = ''1'', size = 40 * 2 ^ 30, used = 40 * 2 ^ 30, path = ''/dev/sda''\<rparr>,
      \<lparr>devid = ''2'', size = 40 * 2 ^ 30, used = 40 * 2 ^ 30, path = ''/dev/sdb''\<rparr>,
      \<lparr>devid = ''3'', size = 40 * 2 ^ 30, used = 0, path = ''/dev/sdc''\<rparr>]"

definition level_devices :: "device list" where
  "level_devices =
     [\<lparr>devid = ''1'', size = 40 * 2 ^ 30, used = 30 * 2 ^ 30, path = ''/dev/sda''\<rparr>,
      \<lparr>devid = ''2'', size = 40 * 2 ^ 30, used = 30 * 2 ^ 30, path = ''/dev/sdb''\<rparr>,
      \<lparr>devid = ''3'', size = 20 * 2 ^ 30, used = 10 * 2 ^ 30, path = ''/dev/sdc''\<rparr>]"

definition close_devices :: "device list" where
  "close_devices =
     [\<lparr>devid = ''1'', size = 100 * 2 ^ 30, used = 50 * 2 ^ 30, path = ''/dev/sda''\<rparr>,
      \<lparr>devid = ''2'', size = 100 * 2 ^ 30, used = 50 * 2 ^ 30 - 107374, path = ''/dev/sdb''\<rparr>]"

definition boundary_devices :: "device list" where
  "boundary_devices =
     [\<lparr>devid = ''1'', size = 10 * 2 ^ 30, used = 10 * 2 ^ 30, path = ''/dev/sda''\<rparr>,
      \<lparr>devid = ''2'', size = 10 * 2 ^ 30, used = 10 * 2 ^ 30 - 3002970418, path = ''/dev/sdb''\<rparr>,
      \<lparr>devid = ''3'', size = 10 * 2 ^ 30, used = 10 * 2 ^ 30 - 10429292294, path = ''/dev/sdc''\<rparr>]"

section \<open>The sleep sequence\<close>

lemma fib_small: "n < 2 \<Longrightarrow> fib n = 1"
  by (subst fib.simps) simp

lemma fib_rec: "2 \<le> n \<Longrightarrow> fib n = fib (n - 2) + fib (n - 1)"
  by (subst fib.simps) simp

lemma fib_0: "fib 0 = 1"
  by (simp add: fib_small)

lemma fib_pos: "1 \<le> fib n"
proof (induction n rule: fib.induct)
  case (1 n)
  then show ?case by (subst fib.simps) auto
qed

lemma fib_step: "fib n \<le> fib (n + 1)"
proof (cases "n < 1")
  case True
  then show ?thesis by (simp add: fib_small)
next
  case False
  then have "fib (n + 1) = fib (n - 1) + fib n"
    using fib_rec [of "n + 1"] by simp
  with fib_pos [of "n - 1"] show ?thesis by simp
qed

lemma fib_mono: "m \<le> n \<Longrightarrow> fib m \<le> fib n"
proof (induction "nat (n - m)" arbitrary: n)
  case 0
  then show ?case by simp
next
  case (Suc k)
  then have "k = nat ((n - 1) - m)" and "m \<le> n - 1" by linarith+
  then have "fib m \<le> fib (n - 1)" using Suc.hyps(1) by blast
  also have "\<dots> \<le> fib n" using fib_step [of "n - 1"] by simp
  finally show ?case .
qed

lemma fib_numeral_rec:
  "fib (numeral (Num.Bit0 k)) =
     fib (numeral (Num.Bit0 k) - 2) + fib (numeral (Num.Bit0 k) - 1)"
  "fib (numeral (Num.Bit1 k)) =
     fib (numeral (Num.Bit1 k) - 2) + fib (numeral (Num.Bit1 k) - 1)"
  by (rule fib_rec, simp)+

lemma fib_table:
  "fib 1 = 1" "fib 2 = 2" "fib 3 = 3" "fib 4 = 5" "fib 5 = 8" "fib 6 = 13" "fib 7 = 21"
  "fib 8 = 34" "fib 9 = 55" "fib 10 = 89" "fib 11 = 144" "fib 12 = 233" "fib 13 = 377"
  "fib 14 = 610" "fib 15 = 987" "fib 16 = 1597" "fib 17 = 2584" "fib 18 = 4181"
  "fib 19 = 6765" "fib 20 = 10946"
  by (simp_all add: fib_numeral_rec fib_small)

text \<open>
  C5. The sleep sequence starts with \<open>fib 0 = fib 1 = 1\<close>, and from index 2 on every term
  is the sum of the two terms before it.
\<close>

theorem fib_recurrence:
  "fib 0 = 1 \<and> fib 1 = 1 \<and> (2 \<le> n \<longrightarrow> fib n = fib (n - 1) + fib (n - 2))"
  using fib_rec [of n] by (simp add: fib_small)

theorem fib_recurrence_witness:
  "fib 0 = 1 \<and> fib 1 = 1 \<and> (2::int) \<le> 7 \<and> fib 7 = fib (7 - 1) + fib (7 - 2) \<and> fib 7 = 21"
  using fib_recurrence [of 7] by (simp add: fib_table)

section \<open>The backoff index\<close>

lemma length_trajectory: "length (trajectory cfg b ds) = Suc (length ds)"
  by (induction ds arbitrary: b) auto

lemma trajectory_0: "trajectory cfg b ds ! 0 = b"
  by (cases ds) auto

lemma trajectory_Suc:
  "i < length ds \<Longrightarrow>
   trajectory cfg b ds ! Suc i = adjust cfg (trajectory cfg b ds ! i) (ds ! i)"
proof (induction ds arbitrary: b i)
  case Nil
  then show ?case by simp
next
  case (Cons d ds)
  show ?case
  proof (cases i)
    case 0
    then show ?thesis by (simp add: trajectory_0)
  next
    case (Suc j)
    with Cons.prems have "j < length ds" by simp
    from Cons.IH [OF this] Suc show ?thesis by simp
  qed
qed

lemma adjust_slow:
  "CHUNK_TIMEOUT cfg < d \<Longrightarrow>
   adjust cfg b d = (if real_of_int (fib (b + 1)) < MAX_SLEEP cfg then b + 1 else b)"
  by (simp add: adjust_def)

lemma adjust_fast:
  "\<not> CHUNK_TIMEOUT cfg < d \<Longrightarrow> 0 \<le> b \<Longrightarrow> adjust cfg b d = max 0 (b - 2)"
  by (auto simp: adjust_def)

lemma adjust_nonneg: "0 \<le> b \<Longrightarrow> 0 \<le> adjust cfg b d"
  by (auto simp: adjust_def)

lemma adjust_increase:
  "b < adjust cfg b d \<Longrightarrow> real_of_int (fib (adjust cfg b d)) < MAX_SLEEP cfg"
  by (auto simp: adjust_def split: if_splits)

lemma adjust_below:
  "real_of_int (fib b) < MAX_SLEEP cfg \<Longrightarrow>
   real_of_int (fib (adjust cfg b d)) < MAX_SLEEP cfg"
proof (cases "b < adjust cfg b d")
  case True
  then show ?thesis by (rule adjust_increase)
next
  case False
  assume below: "real_of_int (fib b) < MAX_SLEEP cfg"
  from False have "fib (adjust cfg b d) \<le> fib b" by (intro fib_mono) simp
  then have "real_of_int (fib (adjust cfg b d)) \<le> real_of_int (fib b)" by simp
  with below show ?thesis by linarith
qed

lemma trajectory_nonneg:
  "0 \<le> b \<Longrightarrow> i < length (trajectory cfg b ds) \<Longrightarrow> 0 \<le> trajectory cfg b ds ! i"
proof (induction i)
  case 0
  then show ?case by (simp add: trajectory_0)
next
  case (Suc i)
  then have "i < length ds" by (simp add: length_trajectory)
  with Suc show ?case by (simp add: trajectory_Suc adjust_nonneg length_trajectory)
qed

text \<open>
  C2, as the script has it. Whatever the durations of the passes, the backoff index that
  starts at 0 is never below 0, and it never increases to an index \<open>i\<close> with
  \<open>fib i \<ge> MAX_SLEEP\<close>: the guard of the increment tests the term of the index it moves to.
\<close>

theorem backoff_index_bounds:
  "i < length (trajectory cfg 0 ds) \<longrightarrow>
     0 \<le> trajectory cfg 0 ds ! i \<and>
     (0 < i \<and> trajectory cfg 0 ds ! (i - 1) < trajectory cfg 0 ds ! i \<longrightarrow>
        real_of_int (fib (trajectory cfg 0 ds ! i)) < MAX_SLEEP cfg)"
proof (intro impI conjI)
  assume i: "i < length (trajectory cfg 0 ds)"
  then show "0 \<le> trajectory cfg 0 ds ! i" by (simp add: trajectory_nonneg)
  assume up: "0 < i \<and> trajectory cfg 0 ds ! (i - 1) < trajectory cfg 0 ds ! i"
  then obtain j where j: "i = Suc j" by (cases i) auto
  with i have "j < length ds" by (simp add: length_trajectory)
  then have step: "trajectory cfg 0 ds ! i = adjust cfg (trajectory cfg 0 ds ! j) (ds ! j)"
    using j by (simp add: trajectory_Suc)
  with up j show "real_of_int (fib (trajectory cfg 0 ds ! i)) < MAX_SLEEP cfg"
    using adjust_increase [of "trajectory cfg 0 ds ! j" cfg "ds ! j"] by simp
qed

theorem backoff_index_bounds_witness:
  "(2::nat) < length (trajectory default_config 0 [61, 61, 10]) \<and>
   0 \<le> trajectory default_config 0 [61, 61, 10] ! 2 \<and>
   trajectory default_config 0 [61, 61, 10] ! (2 - 1)
     < trajectory default_config 0 [61, 61, 10] ! 2 \<and>
   real_of_int (fib (trajectory default_config 0 [61, 61, 10] ! 2))
     < MAX_SLEEP default_config"
proof -
  have t: "trajectory default_config 0 [61, 61, 10] = [0, 1, 2, 0]"
    by (simp add: adjust_def default_config_def fib_table)
  from backoff_index_bounds [of 2 default_config "[61, 61, 10]"] show ?thesis
    unfolding t by simp
qed

text \<open>
  With the limits of the script, nineteen slow passes in a row take the index from 18 to
  19, although \<open>fib (19 + 1) = 10946\<close> is not below the maximum sleep of 7200 seconds.
\<close>

theorem backoff_reaches_19:
  "trajectory default_config 0 (replicate 19 61) ! 18 = 18 \<and>
   trajectory default_config 0 (replicate 19 61) ! 19 = 19 \<and>
   MAX_SLEEP default_config \<le> real_of_int (fib (19 + 1))"
proof -
  have "trajectory default_config 0 (replicate 19 61) =
          [0, 1, 2, 3, 4, 5, 6, 7, 8, 9, 10, 11, 12, 13, 14, 15, 16, 17, 18, 19]"
    by (simp add: numeral_eq_Suc adjust_def default_config_def fib_table fib_0)
  then show ?thesis by (simp add: fib_table default_config_def)
qed

lemma slow_run_step:
  assumes slow: "\<forall>d\<in>set ss. CHUNK_TIMEOUT cfg < d" and i: "i < length ss"
  shows "trajectory cfg b ss ! Suc i =
           (if real_of_int (fib (trajectory cfg b ss ! i + 1)) < MAX_SLEEP cfg
            then trajectory cfg b ss ! i + 1 else trajectory cfg b ss ! i)"
proof -
  from i have "ss ! i \<in> set ss" by simp
  with slow have "CHUNK_TIMEOUT cfg < ss ! i" by blast
  then show ?thesis using i by (simp add: trajectory_Suc adjust_slow)
qed

lemma slow_run_hold:
  assumes slow: "\<forall>d\<in>set ss. CHUNK_TIMEOUT cfg < d"
    and held: "trajectory cfg b ss ! i = trajectory cfg b ss ! Suc i"
    and i: "i < length ss"
  shows "i \<le> j \<Longrightarrow> j < length (trajectory cfg b ss) \<Longrightarrow>
         trajectory cfg b ss ! j = trajectory cfg b ss ! i"
proof (induction j)
  case 0
  then show ?case by simp
next
  case (Suc j)
  show ?case
  proof (cases "i = Suc j")
    case True
    then show ?thesis by simp
  next
    case False
    with Suc.prems have ij: "i \<le> j" and j: "j < length ss"
      by (simp_all add: length_trajectory)
    then have eq: "trajectory cfg b ss ! j = trajectory cfg b ss ! i"
      using Suc.IH by (simp add: length_trajectory)
    from held slow_run_step [OF slow i, of b]
    have cap: "\<not> real_of_int (fib (trajectory cfg b ss ! i + 1)) < MAX_SLEEP cfg"
      by (simp split: if_splits)
    from slow_run_step [OF slow j, of b] eq cap show ?thesis by simp
  qed
qed

lemma slow_run_mono:
  assumes slow: "\<forall>d\<in>set ss. CHUNK_TIMEOUT cfg < d"
  shows "i \<le> j \<Longrightarrow> j < length (trajectory cfg b ss) \<Longrightarrow>
         trajectory cfg b ss ! i \<le> trajectory cfg b ss ! j"
proof (induction j)
  case 0
  then show ?case by simp
next
  case (Suc j)
  show ?case
  proof (cases "i = Suc j")
    case True
    then show ?thesis by simp
  next
    case False
    with Suc.prems have ij: "i \<le> j" and j: "j < length ss"
      by (simp_all add: length_trajectory)
    then have "trajectory cfg b ss ! i \<le> trajectory cfg b ss ! j"
      using Suc.IH by (simp add: length_trajectory)
    also have "\<dots> \<le> trajectory cfg b ss ! Suc j"
      using slow_run_step [OF slow j, of b] by simp
    finally show ?thesis .
  qed
qed

lemma fast_run_index:
  assumes fast: "\<forall>d\<in>set fs. \<not> CHUNK_TIMEOUT cfg < d" and c: "0 \<le> c"
  shows "i < length (trajectory cfg c fs) \<Longrightarrow>
         trajectory cfg c fs ! i = max 0 (c - 2 * int i)"
proof (induction i)
  case 0
  with c show ?case by (simp add: trajectory_0)
next
  case (Suc i)
  then have i: "i < length fs" by (simp add: length_trajectory)
  then have "fs ! i \<in> set fs" by simp
  with fast have f: "\<not> CHUNK_TIMEOUT cfg < fs ! i" by blast
  from Suc i have eq: "trajectory cfg c fs ! i = max 0 (c - 2 * int i)"
    by (simp add: length_trajectory)
  then have "0 \<le> trajectory cfg c fs ! i" by simp
  from adjust_fast [OF f this] i eq show ?case
    by (simp add: trajectory_Suc)
qed

text \<open>
  C4. In a run of slow passes (each longer than the chunk timeout) the index never
  decreases: each pass adds 1 while the next term is below the maximum sleep, and once a
  pass has left the index where it was, the index stays there for the rest of the run. In a
  run of fast passes from an index \<open>c \<ge> 0\<close> the index after \<open>i\<close> passes is
  \<open>max 0 (c - 2 i)\<close>: each pass takes 2 off an index above 1 and 1 off index 1, and index 0
  stays 0.
\<close>

theorem backoff_runs:
  "((\<forall>d\<in>set ss. CHUNK_TIMEOUT cfg < d) \<longrightarrow>
      (\<forall>i j. i \<le> j \<and> j < length (trajectory cfg b ss) \<longrightarrow>
         trajectory cfg b ss ! i \<le> trajectory cfg b ss ! j) \<and>
      (\<forall>i. i < length ss \<longrightarrow>
         trajectory cfg b ss ! Suc i =
           (if real_of_int (fib (trajectory cfg b ss ! i + 1)) < MAX_SLEEP cfg
            then trajectory cfg b ss ! i + 1 else trajectory cfg b ss ! i)) \<and>
      (\<forall>i j. i < length ss \<and> trajectory cfg b ss ! i = trajectory cfg b ss ! Suc i \<and>
         i \<le> j \<and> j < length (trajectory cfg b ss) \<longrightarrow>
         trajectory cfg b ss ! j = trajectory cfg b ss ! i)) \<and>
   ((\<forall>d\<in>set fs. \<not> CHUNK_TIMEOUT cfg < d) \<and> 0 \<le> c \<longrightarrow>
      (\<forall>i. i < length (trajectory cfg c fs) \<longrightarrow>
         trajectory cfg c fs ! i = max 0 (c - 2 * int i)) \<and>
      (\<forall>i. i < length fs \<longrightarrow>
         (1 < trajectory cfg c fs ! i \<longrightarrow>
            trajectory cfg c fs ! Suc i = trajectory cfg c fs ! i - 2) \<and>
         (trajectory cfg c fs ! i = 1 \<longrightarrow> trajectory cfg c fs ! Suc i = 0) \<and>
         (trajectory cfg c fs ! i = 0 \<longrightarrow> trajectory cfg c fs ! Suc i = 0)))"
proof (intro conjI impI allI)
  fix i j
  assume "\<forall>d\<in>set ss. CHUNK_TIMEOUT cfg < d"
    and "i \<le> j \<and> j < length (trajectory cfg b ss)"
  then show "trajectory cfg b ss ! i \<le> trajectory cfg b ss ! j"
    by (simp add: slow_run_mono)
next
  fix i
  assume "\<forall>d\<in>set ss. CHUNK_TIMEOUT cfg < d" and "i < length ss"
  then show "trajectory cfg b ss ! Suc i =
           (if real_of_int (fib (trajectory cfg b ss ! i + 1)) < MAX_SLEEP cfg
            then trajectory cfg b ss ! i + 1 else trajectory cfg b ss ! i)"
    by (rule slow_run_step)
next
  fix i j
  assume "\<forall>d\<in>set ss. CHUNK_TIMEOUT cfg < d"
    and "i < length ss \<and> trajectory cfg b ss ! i = trajectory cfg b ss ! Suc i \<and>
         i \<le> j \<and> j < length (trajectory cfg b ss)"
  then show "trajectory cfg b ss ! j = trajectory cfg b ss ! i"
    using slow_run_hold [of ss cfg b i j] by blast
next
  fix i
  assume "(\<forall>d\<in>set fs. \<not> CHUNK_TIMEOUT cfg < d) \<and> 0 \<le> c"
    and "i < length (trajectory cfg c fs)"
  then show "trajectory cfg c fs ! i = max 0 (c - 2 * int i)"
    by (simp add: fast_run_index)
next
  fix i
  assume fast: "(\<forall>d\<in>set fs. \<not> CHUNK_TIMEOUT cfg < d) \<and> 0 \<le> c" and i: "i < length fs"
  then have "\<not> CHUNK_TIMEOUT cfg < fs ! i" by simp
  then have step: "trajectory cfg c fs ! Suc i =
      (if 1 < trajectory cfg c fs ! i then trajectory cfg c fs ! i - 2
       else if 0 < trajectory cfg c fs ! i then trajectory cfg c fs ! i - 1
       else trajectory cfg c fs ! i)"
    using i by (simp add: trajectory_Suc adjust_def)
  {
    assume "1 < trajectory cfg c fs ! i"
    with step show "trajectory cfg c fs ! Suc i = trajectory cfg c fs ! i - 2" by simp
  next
    assume "trajectory cfg c fs ! i = 1"
    with step show "trajectory cfg c fs ! Suc i = 0" by simp
  next
    assume "trajectory cfg c fs ! i = 0"
    with step show "trajectory cfg c fs ! Suc i = 0" by simp
  }
qed

theorem backoff_runs_witness:
  "CHUNK_TIMEOUT default_config < 61 \<and> \<not> CHUNK_TIMEOUT default_config < 10 \<and>
   trajectory default_config 17 [61, 61, 61, 61] = [17, 18, 19, 19, 19] \<and>
   trajectory default_config 17 [61, 61, 61, 61] ! 1
     \<le> trajectory default_config 17 [61, 61, 61, 61] ! 2 \<and>
   trajectory default_config 17 [61, 61, 61, 61] ! 4
     = trajectory default_config 17 [61, 61, 61, 61] ! 2 \<and>
   trajectory default_config 5 [10, 10, 10, 10] = [5, 3, 1, 0, 0] \<and>
   trajectory default_config 5 [10, 10, 10, 10] ! 3 = max 0 (5 - 2 * int 3)"
proof -
  have slow: "\<forall>d\<in>set [61, 61, 61, 61]. CHUNK_TIMEOUT default_config < d"
    by (simp add: default_config_def)
  have fast: "(\<forall>d\<in>set [10, 10, 10, 10]. \<not> CHUNK_TIMEOUT default_config < d) \<and> (0::int) \<le> 5"
    by (simp add: default_config_def)
  have ts: "trajectory default_config 17 [61, 61, 61, 61] = [17, 18, 19, 19, 19]"
    by (simp add: adjust_def default_config_def fib_table)
  have tf: "trajectory default_config 5 [10, 10, 10, 10] = [5, 3, 1, 0, 0]"
    by (simp add: adjust_def default_config_def)
  note run = backoff_runs [of "[61, 61, 61, 61]" default_config 17 "[10, 10, 10, 10]" 5]
  note s = run [THEN conjunct1, THEN mp, OF slow]
  note f = run [THEN conjunct2, THEN mp, OF fast]
  have m: "trajectory default_config 17 [61, 61, 61, 61] ! 1
     \<le> trajectory default_config 17 [61, 61, 61, 61] ! 2"
    by (rule s [THEN conjunct1, rule_format, of 1 2]) (simp add: length_trajectory)
  have h: "trajectory default_config 17 [61, 61, 61, 61] ! 4
     = trajectory default_config 17 [61, 61, 61, 61] ! 2"
    by (rule s [THEN conjunct2, THEN conjunct2, rule_format, of 2 4])
       (unfold ts, simp)
  have c: "trajectory default_config 5 [10, 10, 10, 10] ! 3 = max 0 (5 - 2 * int 3)"
    by (rule f [THEN conjunct1, rule_format, of 3]) (simp add: length_trajectory)
  have t1: "CHUNK_TIMEOUT default_config < 61" and t2: "\<not> CHUNK_TIMEOUT default_config < 10"
    by (simp_all add: default_config_def)
  from t1 t2 ts m h tf c show ?thesis by blast
qed

section \<open>Scanning the devices and balancing one chunk\<close>

lemma scan_devices_snoc: "scan_devices (ds @ [d]) = scan_step (scan_devices ds) d"
  by (simp add: scan_devices_def)

lemma free_scan_step: "free (scan_step st d) = free st @ [unallocated_bytes d]"
  by (simp add: scan_step_def Let_def unallocated_bytes_def)

lemma free_scan_devices: "free (scan_devices ds) = map unallocated_bytes ds"
proof (induction ds rule: rev_induct)
  case Nil
  then show ?case by (simp add: scan_devices_def scan_init_def)
next
  case (snoc d ds)
  then show ?case by (simp add: scan_devices_snoc free_scan_step)
qed

lemma scan_step_least:
  "least_empty_dev_unallocated st = IntVal m \<Longrightarrow>
   scan_step st d =
     (if unallocated_bytes d < m
      then st\<lparr>free := free st @ [unallocated_bytes d],
              least_empty_dev_id := Some (devid d),
              least_empty_dev_path := Some (path d),
              least_empty_dev_unallocated := IntVal (unallocated_bytes d)\<rparr>
      else st\<lparr>free := free st @ [unallocated_bytes d]\<rparr>)"
  by (simp add: scan_step_def Let_def unallocated_bytes_def)

lemma scan_selects: "ds \<noteq> [] \<Longrightarrow> \<exists>i. selects ds i"
proof (induction ds rule: rev_induct)
  case Nil
  then show ?case by simp
next
  case (snoc d ds)
  show ?case
  proof (cases "ds = []")
    case True
    then have "selects (ds @ [d]) 0"
      by (simp add: selects_def scan_devices_def scan_init_def scan_step_def Let_def
          unallocated_bytes_def)
    then show ?thesis ..
  next
    case False
    with snoc.IH obtain i where i: "selects ds i" by blast
    then have il: "i < length ds" by (simp add: selects_def)
    from i have m: "least_empty_dev_unallocated (scan_devices ds) = IntVal (unallocated_bytes (ds ! i))"
      by (simp add: selects_def)
    note step = scan_step_least [OF m, of d]
    show ?thesis
    proof (cases "unallocated_bytes d < unallocated_bytes (ds ! i)")
      case True
      have "selects (ds @ [d]) (length ds)"
        unfolding selects_def
      proof (intro conjI allI impI)
        show "length ds < length (ds @ [d])" by simp
      next
        fix j assume "j < length (ds @ [d])"
        then consider "j < length ds" | "j = length ds" by fastforce
        then show "unallocated_bytes ((ds @ [d]) ! length ds) \<le> unallocated_bytes ((ds @ [d]) ! j)"
        proof cases
          case 1
          with i have "unallocated_bytes (ds ! i) \<le> unallocated_bytes (ds ! j)"
            by (simp add: selects_def)
          with True 1 show ?thesis by (simp add: nth_append)
        next
          case 2
          then show ?thesis by simp
        qed
      next
        fix j assume j: "j < length ds"
        with i have "unallocated_bytes (ds ! i) \<le> unallocated_bytes (ds ! j)"
          by (simp add: selects_def)
        with True j show "unallocated_bytes ((ds @ [d]) ! length ds) < unallocated_bytes ((ds @ [d]) ! j)"
          by (simp add: nth_append)
      qed (simp_all add: scan_devices_snoc step True)
      then show ?thesis ..
    next
      case False
      have "selects (ds @ [d]) i"
        unfolding selects_def
      proof (intro conjI allI impI)
        show "i < length (ds @ [d])" using il by simp
      next
        fix j assume "j < length (ds @ [d])"
        then consider "j < length ds" | "j = length ds" by fastforce
        then show "unallocated_bytes ((ds @ [d]) ! i) \<le> unallocated_bytes ((ds @ [d]) ! j)"
        proof cases
          case 1
          with i il show ?thesis by (simp add: selects_def nth_append)
        next
          case 2
          with False il show ?thesis by (simp add: nth_append)
        qed
      next
        fix j assume j: "j < i"
        with i il show "unallocated_bytes ((ds @ [d]) ! i) < unallocated_bytes ((ds @ [d]) ! j)"
          by (simp add: selects_def nth_append)
      qed (use i il in \<open>simp_all add: scan_devices_snoc step False selects_def nth_append\<close>)
      then show ?thesis ..
    qed
  qed
qed

subsection \<open>Rounding to a double\<close>

lemma round_half_even_near: "\<bar>of_int (round_half_even y) - y\<bar> \<le> 1 / 2"
  unfolding round_half_even_def Let_def by (auto; linarith)

lemma round_half_even_eq:
  "of_int m - 1 / 2 < y \<Longrightarrow> y < of_int m + 1 / 2 \<Longrightarrow> round_half_even y = m"
proof -
  assume lo: "of_int m - 1 / 2 < y" and hi: "y < of_int m + 1 / 2"
  then have "\<lfloor>y\<rfloor> = m \<or> \<lfloor>y\<rfloor> = m - 1" by linarith
  then show ?thesis
  proof
    assume f: "\<lfloor>y\<rfloor> = m"
    with hi show ?thesis by (simp add: round_half_even_def)
  next
    assume f: "\<lfloor>y\<rfloor> = m - 1"
    with lo show ?thesis by (simp add: round_half_even_def)
  qed
qed

lemma ulp_pos: "0 < ulp x"
  by (simp add: ulp_def)

lemma float_round_0: "float_round 0 = 0"
  by (simp add: float_round_def)

lemma float_round_pos:
  "0 < x \<Longrightarrow> float_round x = of_int (round_half_even (x / ulp x)) * ulp x"
  by (simp add: float_round_def)

lemma float_round_near: "0 < x \<Longrightarrow> \<bar>float_round x - x\<bar> \<le> ulp x / 2"
proof -
  assume x: "0 < x"
  have "\<bar>of_int (round_half_even (x / ulp x)) - x / ulp x\<bar> * ulp x \<le> 1 / 2 * ulp x"
    using round_half_even_near [of "x / ulp x"] ulp_pos [of x]
    by (intro mult_right_mono) simp_all
  moreover have "\<bar>of_int (round_half_even (x / ulp x)) - x / ulp x\<bar> * ulp x =
      \<bar>of_int (round_half_even (x / ulp x)) * ulp x - x\<bar>"
    using ulp_pos [of x] by (simp add: abs_mult_pos' left_diff_distrib divide_simps flip: abs_mult_pos)
  ultimately show ?thesis using x by (simp add: float_round_pos)
qed

lemma ulp_normal: "2 ^ k \<le> x \<Longrightarrow> x < 2 ^ Suc k \<Longrightarrow> ulp x = 2 ^ k / 2 ^ 52"
proof -
  assume lo: "2 ^ k \<le> x" and hi: "x < 2 ^ Suc k"
  have "(0::real) < 2 ^ k" by simp
  with lo have x: "0 < x" by linarith
  have "\<lfloor>log 2 x\<rfloor> = int k"
    using lo hi x by (subst floor_log_eq_powr_iff) (simp_all add: powr_realpow powr_add)
  then show ?thesis by (simp add: ulp_def powr_diff powr_realpow)
qed

lemma ulp_le: "1 \<le> x \<Longrightarrow> ulp x \<le> x / 2 ^ 52"
proof -
  assume x: "1 \<le> x"
  then have "0 \<le> log 2 x" by simp
  then have f: "0 \<le> \<lfloor>log 2 x\<rfloor>" by simp
  have "2 powr of_int \<lfloor>log 2 x\<rfloor> \<le> 2 powr log 2 x" by simp
  also have "\<dots> = x" using x by simp
  finally have "2 powr of_int \<lfloor>log 2 x\<rfloor> \<le> x" .
  then have "2 powr of_int \<lfloor>log 2 x\<rfloor> / 2 ^ 52 \<le> x / 2 ^ 52"
    by (simp add: divide_right_mono)
  moreover from f have "max \<lfloor>log 2 x\<rfloor> (- 1022) = \<lfloor>log 2 x\<rfloor>" by simp
  ultimately show ?thesis by (simp add: ulp_def powr_diff powr_realpow)
qed

lemma float_round_rel: "1 \<le> x \<Longrightarrow> \<bar>float_round x - x\<bar> \<le> x / 2 ^ 53"
proof -
  assume x: "1 \<le> x"
  then have "\<bar>float_round x - x\<bar> \<le> ulp x / 2" by (intro float_round_near) simp
  also have "\<dots> \<le> (x / 2 ^ 52) / 2" using ulp_le [OF x] by simp
  finally show ?thesis by simp
qed

lemma float_round_eq:
  assumes "2 ^ k \<le> x" and "x < 2 ^ Suc k"
    and "of_int m - 1 / 2 < x * 2 ^ 52 / 2 ^ k" and "x * 2 ^ 52 / 2 ^ k < of_int m + 1 / 2"
  shows "float_round x = of_int m * 2 ^ k / 2 ^ 52"
proof -
  have "(0::real) < 2 ^ k" by simp
  with assms(1) have x: "0 < x" by linarith
  have u: "ulp x = 2 ^ k / 2 ^ 52" using assms(1,2) by (rule ulp_normal)
  have "x / ulp x = x * 2 ^ 52 / 2 ^ k" by (simp add: u)
  with assms(3,4) have "round_half_even (x / ulp x) = m" by (intro round_half_even_eq) simp_all
  with x u show ?thesis by (simp add: float_round_pos)
qed

subsection \<open>Balancing one chunk\<close>

lemma stdev_few: "length xs < 2 \<Longrightarrow> stdev xs = Inl StatisticsError"
  by (simp add: stdev_def)

lemma stdev_value:
  "2 \<le> length xs \<Longrightarrow> float_round (sqrt (variance xs)) < 2 ^ 1024 \<Longrightarrow>
   stdev xs = Inr (float_round (sqrt (variance xs)))"
  by (simp add: stdev_def Let_def)

lemma stdev_Inr:
  "stdev xs = Inr sd \<Longrightarrow> 2 \<le> length xs \<and> sd = float_round (sqrt (variance xs))"
  by (auto simp: stdev_def Let_def split: if_splits)

lemma bal_chunk_cases:
  "bal_chunk cfg ds r msg =
     (case stdev (map unallocated_bytes ds) of
        Inl e \<Rightarrow> (Raise e, [])
      | Inr sd \<Rightarrow>
          if sd < STDEV_LIMIT cfg then (SystemExit None, [])
          else (Return (),
                Balance (balance_cmd cfg (least_empty_dev_id (scan_devices ds))) #
                (if r \<noteq> 0 then [Warning msg, Sleep 30] else [])))"
  by (simp add: bal_chunk_def Let_def free_scan_devices)

lemma selects_unique: "selects ds i \<Longrightarrow> selects ds k \<Longrightarrow> k = i"
proof (rule ccontr)
  assume i: "selects ds i" and k: "selects ds k" and "k \<noteq> i"
  then consider "k < i" | "i < k" by linarith
  then show False
  proof cases
    case 1
    with i have "unallocated_bytes (ds ! i) < unallocated_bytes (ds ! k)"
      by (simp add: selects_def)
    moreover from i k have "unallocated_bytes (ds ! k) \<le> unallocated_bytes (ds ! i)"
      by (simp add: selects_def)
    ultimately show False by simp
  next
    case 2
    with k have "unallocated_bytes (ds ! k) < unallocated_bytes (ds ! i)"
      by (simp add: selects_def)
    moreover from i k have "unallocated_bytes (ds ! i) \<le> unallocated_bytes (ds ! k)"
      by (simp add: selects_def)
    ultimately show False by simp
  qed
qed

text \<open>
  C6. On a list with at least one device the scan of \<open>bal_chunk\<close> settles on exactly one
  device: one with the least unallocated space of all, and the first of those in the order of
  the list. Its id is the one in the balance command that \<open>bal_chunk\<close> runs.
\<close>

theorem least_empty_device:
  "ds \<noteq> [] \<Longrightarrow>
   \<exists>i. selects ds i \<and> (\<forall>k. selects ds k \<longrightarrow> k = i) \<and>
       (\<forall>r msg. fst (bal_chunk cfg ds r msg) = Return () \<longrightarrow>
          hd (snd (bal_chunk cfg ds r msg)) = Balance (balance_cmd cfg (Some (devid (ds ! i)))))"
proof -
  assume "ds \<noteq> []"
  then obtain i where i: "selects ds i" using scan_selects by blast
  then have id: "least_empty_dev_id (scan_devices ds) = Some (devid (ds ! i))"
    by (simp add: selects_def)
  have "\<forall>r msg. fst (bal_chunk cfg ds r msg) = Return () \<longrightarrow>
          hd (snd (bal_chunk cfg ds r msg)) = Balance (balance_cmd cfg (Some (devid (ds ! i))))"
    by (simp add: bal_chunk_cases id split: sum.split)
  with i selects_unique [OF i] show ?thesis by blast
qed

theorem least_empty_device_witness:
  "\<exists>i. selects
         [\<lparr>devid = ''1'', size = 200, used = 100, path = ''/dev/sda''\<rparr>,
          \<lparr>devid = ''2'', size = 200, used = 180, path = ''/dev/sdb''\<rparr>,
          \<lparr>devid = ''3'', size = 100, used = 80, path = ''/dev/sdc''\<rparr>] i \<and>
       i = 1"
proof -
  let ?ds = "[\<lparr>devid = ''1'', size = 200, used = 100, path = ''/dev/sda''\<rparr>,
          \<lparr>devid = ''2'', size = 200, used = 180, path = ''/dev/sdb''\<rparr>,
          \<lparr>devid = ''3'', size = 100, used = 80, path = ''/dev/sdc''\<rparr>]"
  have ne: "?ds \<noteq> []" by simp
  from least_empty_device [OF ne, of default_config]
  obtain i where i: "selects ?ds i" by blast
  then have "least_empty_dev_id (scan_devices ?ds) = Some (devid (?ds ! i))" and il: "i < 3"
    by (simp_all add: selects_def)
  moreover have "least_empty_dev_id (scan_devices ?ds) = Some ''2''"
    by (simp add: scan_devices_def scan_init_def scan_step_def Let_def)
  ultimately have d: "devid (?ds ! i) = ''2''" by simp
  from il consider "i = 0" | "i = 1" | "i = 2" by linarith
  then have "i = 1" using d by cases simp_all
  with i show ?thesis by blast
qed

lemma loop_body_cases:
  "loop_body cfg b p =
     (case stdev (map unallocated_bytes (devices p)) of
        Inl e \<Rightarrow> (Raise e, [])
      | Inr sd \<Rightarrow>
          if sd < STDEV_LIMIT cfg then (SystemExit None, [])
          else (Return (adjust cfg b (duration p)),
                Balance (balance_cmd cfg (least_empty_dev_id (scan_devices (devices p)))) #
                (if ret p \<noteq> 0 then [Warning (out p), Sleep 30] else []) @
                [Sleep (fib (adjust cfg b (duration p)))]))"
  by (simp add: loop_body_def bal_chunk_cases fib_sleep_def Let_def split: sum.split)

text \<open>
  C7. With fewer than two devices \<open>statistics.stdev\<close> raises \<open>StatisticsError\<close> instead of
  giving a value to compare with the limit. Nothing catches the exception: \<open>bal_chunk\<close> and
  the loop end with it, before any balance command or sleep and whatever passes would have
  followed, and the process exits with status 1.
\<close>

theorem too_few_devices:
  "length (devices p) < 2 \<Longrightarrow>
   stdev (free (scan_devices (devices p))) = Inl StatisticsError \<and>
   bal_chunk cfg (devices p) (ret p) (out p) = (Raise StatisticsError, []) \<and>
   loop_body cfg b p = (Raise StatisticsError, []) \<and>
   main_loop cfg b (p # ps) = (Raise StatisticsError, []) \<and>
   exit_status (fst (main_loop cfg b (p # ps))) = Some 1"
  by (simp add: loop_body_cases bal_chunk_cases free_scan_devices stdev_few)

theorem too_few_devices_witness:
  "length (devices \<lparr>devices = [\<lparr>devid = ''1'', size = 200, used = 100, path = ''/dev/sda''\<rparr>],
                    ret = 0, out = ''Done'', duration = 20\<rparr>) < 2 \<and>
   main_loop default_config 0
     [\<lparr>devices = [\<lparr>devid = ''1'', size = 200, used = 100, path = ''/dev/sda''\<rparr>],
       ret = 0, out = ''Done'', duration = 20\<rparr>] = (Raise StatisticsError, []) \<and>
   exit_status (fst (main_loop default_config 0
     [\<lparr>devices = [\<lparr>devid = ''1'', size = 200, used = 100, path = ''/dev/sda''\<rparr>],
       ret = 0, out = ''Done'', duration = 20\<rparr>])) = Some 1"
  using too_few_devices [of "\<lparr>devices = [\<lparr>devid = ''1'', size = 200, used = 100, path = ''/dev/sda''\<rparr>],
                    ret = 0, out = ''Done'', duration = 20\<rparr>" default_config 0 "[]"]
  by simp

section \<open>Convergence\<close>

lemma unallocated_skewed: "map unallocated_bytes skewed_devices = [0, 0, 40 * 2 ^ 30]"
  by (simp add: skewed_devices_def unallocated_bytes_def)

lemma unallocated_level:
  "map unallocated_bytes level_devices = [10 * 2 ^ 30, 10 * 2 ^ 30, 10 * 2 ^ 30]"
  by (simp add: level_devices_def unallocated_bytes_def)

lemma unallocated_close:
  "map unallocated_bytes close_devices = [50 * 2 ^ 30, 50 * 2 ^ 30 + 107374]"
  by (simp add: close_devices_def unallocated_bytes_def)

lemma unallocated_boundary:
  "map unallocated_bytes boundary_devices = [0, 3002970418, 10429292294]"
  by (simp add: boundary_devices_def unallocated_bytes_def)

lemma variance_same: "variance [c, c, c] = 0"
  by (simp add: variance_def mean_def)

lemma variance_skewed: "variance [0, 0, 40 * 2 ^ 30] = 1600 * 2 ^ 60 / 3"
  by (simp add: variance_def mean_def power2_eq_square)

lemma variance_close: "variance [50 * 2 ^ 30, 50 * 2 ^ 30 + 107374] = 107374\<^sup>2 / 2"
  by (simp add: variance_def mean_def power2_eq_square)

lemma variance_boundary: "variance [0, 3002970418, 10429292294] = (5 * 2 ^ 30)\<^sup>2 - 1644"
  by (simp add: variance_def mean_def power2_eq_square)

lemma variance_nonneg: "0 \<le> variance xs"
proof (cases xs)
  case Nil
  then show ?thesis by (simp add: variance_def)
next
  case (Cons y ys)
  have "0 \<le> sum_list (map (\<lambda>x. (real_of_int x - mean xs)\<^sup>2) xs)"
    by (rule sum_list_nonneg) auto
  moreover from Cons have "0 \<le> real (length xs) - 1" by simp
  ultimately show ?thesis unfolding variance_def by (rule divide_nonneg_nonneg)
qed

lemma stdev_same: "stdev [c, c, c] = Inr 0"
  by (simp add: stdev_def variance_same float_round_0)

lemma skewed_exact:
  "23094 / 1000 * 2 ^ 30 < sqrt (variance [0, 0, 40 * 2 ^ 30])"
  "sqrt (variance [0, 0, 40 * 2 ^ 30]) < 23095 / 1000 * 2 ^ 30"
  unfolding variance_skewed
  by (rule real_less_rsqrt, simp add: power2_eq_square)
     (rule real_less_lsqrt, simp_all add: power2_eq_square)

lemma skewed_bounds:
  "2309 / 100 * 2 ^ 30 < float_round (sqrt (variance [0, 0, 40 * 2 ^ 30]))"
  "float_round (sqrt (variance [0, 0, 40 * 2 ^ 30])) < 2310 / 100 * 2 ^ 30"
proof -
  define s where "s = sqrt (variance [0, 0, 40 * 2 ^ 30])"
  from skewed_exact have lo: "23094 / 1000 * 2 ^ 30 < s" and hi: "s < 23095 / 1000 * 2 ^ 30"
    by (simp_all add: s_def)
  from lo have "1 \<le> s" by simp
  then have "\<bar>float_round s - s\<bar> \<le> s / 2 ^ 53" by (rule float_round_rel)
  moreover from hi have "s / 2 ^ 53 < 1" by simp
  ultimately have near: "s - 1 < float_round s" "float_round s < s + 1" by linarith+
  from lo near(1) have "2309 / 100 * 2 ^ 30 < float_round s" by simp
  moreover from hi near(2) have "float_round s < 2310 / 100 * 2 ^ 30" by simp
  ultimately show "2309 / 100 * 2 ^ 30 < float_round (sqrt (variance [0, 0, 40 * 2 ^ 30]))"
    and "float_round (sqrt (variance [0, 0, 40 * 2 ^ 30])) < 2310 / 100 * 2 ^ 30"
    unfolding s_def by blast+
qed

lemma stdev_skewed:
  "stdev [0, 0, 40 * 2 ^ 30] = Inr (float_round (sqrt (variance [0, 0, 40 * 2 ^ 30])))"
proof (rule stdev_value)
  show "2 \<le> length [0, 0, 40 * 2 ^ 30 :: int]" by simp
  have "(2310::real) / 100 * 2 ^ 30 < 2 ^ 1024" by simp
  with skewed_bounds(2) show "float_round (sqrt (variance [0, 0, 40 * 2 ^ 30])) < 2 ^ 1024"
    by (rule less_trans)
qed

lemma close_bound:
  "float_round (sqrt (variance [50 * 2 ^ 30, 50 * 2 ^ 30 + 107374])) < 75926"
proof -
  define s where "s = sqrt (variance [50 * 2 ^ 30, 50 * 2 ^ 30 + 107374])"
  have hi: "s < 75925" unfolding s_def variance_close
    by (rule real_less_lsqrt) (simp_all add: power2_eq_square)
  have lo: "1 < s" unfolding s_def variance_close
    by (rule real_less_rsqrt) (simp add: power2_eq_square)
  then have "\<bar>float_round s - s\<bar> \<le> s / 2 ^ 53" by (intro float_round_rel) simp
  moreover from hi have "s / 2 ^ 53 < 1" by simp
  ultimately have "float_round s < s + 1" by linarith
  with hi have "float_round s < 75926" by simp
  then show ?thesis unfolding s_def .
qed

lemma stdev_close:
  "stdev (map unallocated_bytes close_devices) =
     Inr (float_round (sqrt (variance [50 * 2 ^ 30, 50 * 2 ^ 30 + 107374])))"
  unfolding unallocated_close
proof (rule stdev_value)
  show "2 \<le> length [50 * 2 ^ 30, 50 * 2 ^ 30 + 107374 :: int]" by simp
  have "(75926::real) < 2 ^ 1024" by simp
  with close_bound
  show "float_round (sqrt (variance [50 * 2 ^ 30, 50 * 2 ^ 30 + 107374])) < 2 ^ 1024"
    by (rule less_trans)
qed

lemma boundary_exact:
  "5 * 2 ^ 30 - 1 / 2 ^ 21 < sqrt (variance [0, 3002970418, 10429292294])"
  "sqrt (variance [0, 3002970418, 10429292294]) < 5 * 2 ^ 30"
  unfolding variance_boundary
  by (rule real_less_rsqrt, simp add: power2_eq_square field_simps)
     (rule real_less_lsqrt, simp_all add: power2_eq_square)

lemma boundary_rounds_up:
  "float_round (sqrt (variance [0, 3002970418, 10429292294])) = 5 * 2 ^ 30"
proof -
  define s where "s = sqrt (variance [0, 3002970418, 10429292294])"
  from boundary_exact have lo: "5 * 2 ^ 30 - 1 / 2 ^ 21 < s" and hi: "s < 5 * 2 ^ 30"
    by (simp_all add: s_def)
  have "float_round s = of_int (5 * 2 ^ 50) * 2 ^ 32 / 2 ^ 52"
  proof (rule float_round_eq)
    from lo show "2 ^ 32 \<le> s" by simp
    from hi show "s < 2 ^ Suc 32" by simp
    from lo show "of_int (5 * 2 ^ 50) - 1 / 2 < s * 2 ^ 52 / 2 ^ 32" by simp
    from hi show "s * 2 ^ 52 / 2 ^ 32 < of_int (5 * 2 ^ 50) + 1 / 2" by simp
  qed
  then show ?thesis unfolding s_def by simp
qed

lemma stdev_boundary: "stdev (map unallocated_bytes boundary_devices) = Inr (5 * 2 ^ 30)"
  unfolding unallocated_boundary
  using stdev_value [of "[0, 3002970418, 10429292294]"] by (simp add: boundary_rounds_up)

text \<open>
  C3, as the script has it. When \<open>statistics.stdev\<close> gives a value, that value is the sample
  standard deviation of the unallocated space rounded to the nearest double, within half a
  unit in the last place of the exact one, and \<open>bal_chunk\<close> exits exactly when the value is
  strictly below the limit, and goes on to balance exactly when it is not. Unallocated space
  of 10 GiB on each of three devices has standard deviation 0 and exits under every positive
  limit. Unallocated space of 0, 0 and 40 GiB has a standard deviation between 23.09 and
  23.10 GiB, and under a limit of 5 GiB the script goes on to balance.
\<close>

theorem converged_iff_stdev:
  "(stdev (map unallocated_bytes ds) = Inr sd \<longrightarrow>
      sd = float_round (sqrt (variance (map unallocated_bytes ds))) \<and>
      \<bar>sd - sqrt (variance (map unallocated_bytes ds))\<bar>
        \<le> ulp (sqrt (variance (map unallocated_bytes ds))) / 2 \<and>
      (fst (bal_chunk cfg ds r msg) = SystemExit None) = (sd < STDEV_LIMIT cfg) \<and>
      (fst (bal_chunk cfg ds r msg) = Return ()) = (\<not> sd < STDEV_LIMIT cfg)) \<and>
   stdev [10 * 2 ^ 30, 10 * 2 ^ 30, 10 * 2 ^ 30] = Inr 0 \<and>
   (map unallocated_bytes ds = [10 * 2 ^ 30, 10 * 2 ^ 30, 10 * 2 ^ 30] \<and> 0 < STDEV_LIMIT cfg \<longrightarrow>
      fst (bal_chunk cfg ds r msg) = SystemExit None) \<and>
   (\<exists>s. stdev [0, 0, 40 * 2 ^ 30] = Inr s \<and>
        2309 / 100 * 2 ^ 30 < s \<and> s < 2310 / 100 * 2 ^ 30) \<and>
   (map unallocated_bytes ds = [0, 0, 40 * 2 ^ 30] \<and> STDEV_LIMIT cfg = 5 * 2 ^ 30 \<longrightarrow>
      fst (bal_chunk cfg ds r msg) = Return ())"
proof (intro conjI impI)
  assume sd: "stdev (map unallocated_bytes ds) = Inr sd"
  then show eq: "sd = float_round (sqrt (variance (map unallocated_bytes ds)))"
    by (simp add: stdev_Inr)
  show "\<bar>sd - sqrt (variance (map unallocated_bytes ds))\<bar>
        \<le> ulp (sqrt (variance (map unallocated_bytes ds))) / 2"
  proof (cases "sqrt (variance (map unallocated_bytes ds)) = 0")
    case True
    with eq ulp_pos [of 0] show ?thesis by (simp add: float_round_0)
  next
    case False
    moreover have "0 \<le> sqrt (variance (map unallocated_bytes ds))"
      by (simp add: variance_nonneg)
    ultimately have "0 < sqrt (variance (map unallocated_bytes ds))" by linarith
    then show ?thesis unfolding eq by (rule float_round_near)
  qed
  from sd show "(fst (bal_chunk cfg ds r msg) = SystemExit None) = (sd < STDEV_LIMIT cfg)"
    and "(fst (bal_chunk cfg ds r msg) = Return ()) = (\<not> sd < STDEV_LIMIT cfg)"
    by (simp_all add: bal_chunk_cases)
next
  show "stdev [10 * 2 ^ 30, 10 * 2 ^ 30, 10 * 2 ^ 30] = Inr 0"
    by (rule stdev_same)
next
  assume "map unallocated_bytes ds = [10 * 2 ^ 30, 10 * 2 ^ 30, 10 * 2 ^ 30] \<and> 0 < STDEV_LIMIT cfg"
  then show "fst (bal_chunk cfg ds r msg) = SystemExit None"
    by (simp add: bal_chunk_cases stdev_same)
next
  from stdev_skewed skewed_bounds
  show "\<exists>s. stdev [0, 0, 40 * 2 ^ 30] = Inr s \<and>
        2309 / 100 * 2 ^ 30 < s \<and> s < 2310 / 100 * 2 ^ 30"
    by blast
next
  assume a: "map unallocated_bytes ds = [0, 0, 40 * 2 ^ 30] \<and> STDEV_LIMIT cfg = 5 * 2 ^ 30"
  from skewed_bounds(1)
  have "\<not> float_round (sqrt (variance [0, 0, 40 * 2 ^ 30])) < 5 * 2 ^ 30" by simp
  moreover from a have "stdev (map unallocated_bytes ds) =
      Inr (float_round (sqrt (variance [0, 0, 40 * 2 ^ 30])))"
    using stdev_skewed by simp
  ultimately show "fst (bal_chunk cfg ds r msg) = Return ()"
    using a by (simp add: bal_chunk_cases)
qed

theorem converged_iff_stdev_witness:
  "stdev (map unallocated_bytes skewed_devices) =
     Inr (float_round (sqrt (variance [0, 0, 40 * 2 ^ 30]))) \<and>
   map unallocated_bytes skewed_devices = [0, 0, 40 * 2 ^ 30] \<and>
   STDEV_LIMIT default_config = 5 * 2 ^ 30 \<and>
   \<not> float_round (sqrt (variance [0, 0, 40 * 2 ^ 30])) < STDEV_LIMIT default_config \<and>
   fst (bal_chunk default_config skewed_devices 0 ''Done'') = Return () \<and>
   map unallocated_bytes level_devices = [10 * 2 ^ 30, 10 * 2 ^ 30, 10 * 2 ^ 30] \<and>
   0 < STDEV_LIMIT default_config \<and>
   fst (bal_chunk default_config level_devices 0 ''Done'') = SystemExit None"
proof -
  have l: "STDEV_LIMIT default_config = 5 * 2 ^ 30" "0 < STDEV_LIMIT default_config"
    by (simp_all add: default_config_def)
  have v: "stdev (map unallocated_bytes skewed_devices) =
     Inr (float_round (sqrt (variance [0, 0, 40 * 2 ^ 30])))"
    unfolding unallocated_skewed by (rule stdev_skewed)
  note sk = converged_iff_stdev [of skewed_devices
      "float_round (sqrt (variance [0, 0, 40 * 2 ^ 30]))" default_config 0 "''Done''"]
  note lv = converged_iff_stdev [of level_devices 0 default_config 0 "''Done''"]
  from sk unallocated_skewed l(1)
  have a: "fst (bal_chunk default_config skewed_devices 0 ''Done'') = Return ()" by blast
  from sk v a
  have b: "\<not> float_round (sqrt (variance [0, 0, 40 * 2 ^ 30])) < STDEV_LIMIT default_config"
    by blast
  from lv unallocated_level l(2)
  have c: "fst (bal_chunk default_config level_devices 0 ''Done'') = SystemExit None" by blast
  from v unallocated_skewed l a b c unallocated_level show ?thesis by blast
qed

text \<open>
  Two departures from the specification. The sample standard deviation of 0, 0 and 40 GiB
  is above 23 GiB;
  the value of 18.86 GiB is what dividing by the number of values, rather than by one less,
  would give. And the test is on the rounded value: with unallocated space of 0, 3002970418
  and 10429292294 bytes the exact standard deviation is strictly below the limit of 5 GiB,
  yet the double nearest to it is the limit itself, and the script goes on to balance.
\<close>

theorem converged_not_exact_stdev:
  "stdev [0, 0, 40 * 2 ^ 30] = Inr (float_round (sqrt (variance [0, 0, 40 * 2 ^ 30]))) \<and>
   23 * 2 ^ 30 < float_round (sqrt (variance [0, 0, 40 * 2 ^ 30])) \<and>
   sqrt (variance (map unallocated_bytes boundary_devices)) < STDEV_LIMIT default_config \<and>
   stdev (map unallocated_bytes boundary_devices) = Inr (STDEV_LIMIT default_config) \<and>
   fst (bal_chunk default_config boundary_devices 0 ''Done'') = Return ()"
proof -
  have "(23::real) * 2 ^ 30 < 2309 / 100 * 2 ^ 30" by simp
  with skewed_bounds(1)
  have a: "23 * 2 ^ 30 < float_round (sqrt (variance [0, 0, 40 * 2 ^ 30]))"
    by linarith
  have l: "STDEV_LIMIT default_config = 5 * 2 ^ 30" by (simp add: default_config_def)
  from boundary_exact(2)
  have b: "sqrt (variance (map unallocated_bytes boundary_devices)) < STDEV_LIMIT default_config"
    by (simp add: unallocated_boundary l)
  have c: "stdev (map unallocated_bytes boundary_devices) = Inr (STDEV_LIMIT default_config)"
    by (simp add: stdev_boundary l)
  have d: "fst (bal_chunk default_config boundary_devices 0 ''Done'') = Return ()"
    by (simp add: bal_chunk_cases c)
  from stdev_skewed a b c d show ?thesis by blast
qed

text \<open>
  C8. When the devices of a pass have a standard deviation below the limit, \<open>bal_chunk\<close>
  calls \<open>sys.exit()\<close> before it builds the balance command: the loop ends in that pass with
  exit status 0, and the pass runs no balance command and no sleep.
\<close>

theorem converged_exits:
  "stdev (map unallocated_bytes (devices p)) = Inr sd \<Longrightarrow> sd < STDEV_LIMIT cfg \<Longrightarrow>
   bal_chunk cfg (devices p) (ret p) (out p) = (SystemExit None, []) \<and>
   loop_body cfg b p = (SystemExit None, []) \<and>
   main_loop cfg b (p # ps) = (SystemExit None, []) \<and>
   exit_status (fst (main_loop cfg b (p # ps))) = Some 0 \<and>
   (\<forall>c. Balance c \<notin> set (snd (main_loop cfg b (p # ps))))"
  by (simp add: loop_body_cases bal_chunk_cases)

theorem converged_exits_witness:
  "stdev (map unallocated_bytes
     (devices \<lparr>devices = close_devices, ret = 0, out = ''Done'', duration = 20\<rparr>)) =
     Inr (float_round (sqrt (variance [50 * 2 ^ 30, 50 * 2 ^ 30 + 107374]))) \<and>
   float_round (sqrt (variance [50 * 2 ^ 30, 50 * 2 ^ 30 + 107374]))
     < STDEV_LIMIT default_config \<and>
   main_loop default_config 0
     [\<lparr>devices = close_devices, ret = 0, out = ''Done'', duration = 20\<rparr>] = (SystemExit None, []) \<and>
   exit_status (fst (main_loop default_config 0
     [\<lparr>devices = close_devices, ret = 0, out = ''Done'', duration = 20\<rparr>])) = Some 0"
proof -
  let ?p = "\<lparr>devices = close_devices, ret = 0, out = ''Done'', duration = 20\<rparr>"
  have v: "stdev (map unallocated_bytes (devices ?p)) =
     Inr (float_round (sqrt (variance [50 * 2 ^ 30, 50 * 2 ^ 30 + 107374])))"
    by (simp add: stdev_close)
  have c: "float_round (sqrt (variance [50 * 2 ^ 30, 50 * 2 ^ 30 + 107374]))
     < STDEV_LIMIT default_config"
    using close_bound by (simp add: default_config_def)
  from converged_exits [OF v c, of 0 "[]"] v c show ?thesis by blast
qed

section \<open>The balancing loop\<close>

lemma main_loop_Cons:
  "main_loop cfg b (p # ps) =
     (case stdev (map unallocated_bytes (devices p)) of
        Inl e \<Rightarrow> (Raise e, [])
      | Inr sd \<Rightarrow>
          if sd < STDEV_LIMIT cfg then (SystemExit None, [])
          else (fst (main_loop cfg (adjust cfg b (duration p)) ps),
                snd (loop_body cfg b p) @ snd (main_loop cfg (adjust cfg b (duration p)) ps)))"
  by (simp add: loop_body_cases split: prod.split sum.split)

lemma skewed_running:
  "stdev (map unallocated_bytes skewed_devices) =
     Inr (float_round (sqrt (variance [0, 0, 40 * 2 ^ 30])))"
  "\<not> float_round (sqrt (variance [0, 0, 40 * 2 ^ 30])) < STDEV_LIMIT default_config"
proof -
  show "stdev (map unallocated_bytes skewed_devices) =
     Inr (float_round (sqrt (variance [0, 0, 40 * 2 ^ 30])))"
    unfolding unallocated_skewed by (rule stdev_skewed)
  from skewed_bounds(1)
  show "\<not> float_round (sqrt (variance [0, 0, 40 * 2 ^ 30])) < STDEV_LIMIT default_config"
    by (simp add: default_config_def)
qed

lemma skewed_pass:
  "devices p = skewed_devices \<Longrightarrow>
   loop_body default_config b p =
     (Return (adjust default_config b (duration p)),
      Balance ''btrfs balance start -ddevid=1,limit=1 /media/btrfs'' #
      (if ret p \<noteq> 0 then [Warning (out p), Sleep 30] else []) @
      [Sleep (fib (adjust default_config b (duration p)))])"
proof -
  assume d: "devices p = skewed_devices"
  have "least_empty_dev_id (scan_devices skewed_devices) = Some ''1''"
    by (simp add: skewed_devices_def scan_devices_def scan_init_def scan_step_def Let_def)
  then have "balance_cmd default_config (least_empty_dev_id (scan_devices skewed_devices)) =
      ''btrfs balance start -ddevid=1,limit=1 /media/btrfs''"
    by (simp add: balance_cmd_def default_config_def)
  then show ?thesis using skewed_running by (simp add: loop_body_cases d)
qed

text \<open>
  C1, as the script has it. When the balance command fails (status not 0), \<open>bal_chunk\<close>
  logs its output as a warning, sleeps 30 seconds and returns. The loop then goes on as after
  a success: it adjusts the backoff index by the duration of the pass and sleeps for the term
  of the new index. The new index is the one a successful pass of the same duration gives.
\<close>

theorem failed_balance_adjusts_backoff:
  "ret p \<noteq> 0 \<Longrightarrow> stdev (map unallocated_bytes (devices p)) = Inr sd \<Longrightarrow>
   \<not> sd < STDEV_LIMIT cfg \<Longrightarrow>
   loop_body cfg b p =
     (Return (adjust cfg b (duration p)),
      [Balance (balance_cmd cfg (least_empty_dev_id (scan_devices (devices p)))),
       Warning (out p), Sleep 30, Sleep (fib (adjust cfg b (duration p)))]) \<and>
   fst (loop_body cfg b (p\<lparr>ret := 0\<rparr>)) = fst (loop_body cfg b p)"
  by (simp add: loop_body_cases)

theorem failed_balance_adjusts_backoff_witness:
  "ret \<lparr>devices = skewed_devices, ret = 1, out = ''ERROR: error during balancing'',
        duration = 95\<rparr> \<noteq> 0 \<and>
   stdev (map unallocated_bytes skewed_devices) =
     Inr (float_round (sqrt (variance [0, 0, 40 * 2 ^ 30]))) \<and>
   \<not> float_round (sqrt (variance [0, 0, 40 * 2 ^ 30])) < STDEV_LIMIT default_config \<and>
   fst (loop_body default_config 0
     \<lparr>devices = skewed_devices, ret = 1, out = ''ERROR: error during balancing'',
      duration = 95\<rparr>) = Return 1 \<and>
   fst (loop_body default_config 0
     \<lparr>devices = skewed_devices, ret = 0, out = ''ERROR: error during balancing'',
      duration = 95\<rparr>) = Return 1"
proof -
  let ?p = "\<lparr>devices = skewed_devices, ret = 1, out = ''ERROR: error during balancing'',
        duration = 95\<rparr>"
  have r: "ret ?p \<noteq> 0" by simp
  have v: "stdev (map unallocated_bytes (devices ?p)) =
     Inr (float_round (sqrt (variance [0, 0, 40 * 2 ^ 30])))"
    using skewed_running(1) by simp
  note c = skewed_running(2)
  have a: "adjust default_config 0 95 = 1"
    by (simp add: adjust_def default_config_def fib_table)
  from failed_balance_adjusts_backoff [OF r v c, of 0] a r skewed_running show ?thesis by simp
qed

text \<open>
  A failed balance command does move the index. From the starting index 0, a pass that fails
  after 95 seconds leaves the index at 1; from index 2, a pass that fails after 45 seconds
  leaves it at 0.
\<close>

theorem failed_balance_moves_index:
  "fst (main_loop default_config 0
     [\<lparr>devices = skewed_devices, ret = 1, out = ''ERROR: error during balancing'',
       duration = 95\<rparr>]) = Return 1 \<and>
   fst (loop_body default_config 2
     \<lparr>devices = skewed_devices, ret = 1, out = ''ERROR: error during balancing'',
      duration = 45\<rparr>) = Return 0"
proof -
  have "adjust default_config 0 95 = 1"
    by (simp add: adjust_def default_config_def fib_table)
  moreover have "adjust default_config 2 45 = 0"
    by (simp add: adjust_def default_config_def)
  ultimately show ?thesis by (simp add: skewed_pass)
qed

lemma main_loop_below:
  "main_loop cfg b0 ps = (Return b, acts) \<Longrightarrow> real_of_int (fib b0) < MAX_SLEEP cfg \<Longrightarrow>
   real_of_int (fib b) < MAX_SLEEP cfg"
proof (induction ps arbitrary: b0 acts)
  case Nil
  then show ?case by simp
next
  case (Cons p ps)
  from Cons.prems(1)
  have "fst (main_loop cfg (adjust cfg b0 (duration p)) ps) = Return b"
    by (auto simp: main_loop_Cons simp del: main_loop.simps split: sum.splits if_splits)
  then have "main_loop cfg (adjust cfg b0 (duration p)) ps =
      (Return b, snd (main_loop cfg (adjust cfg b0 (duration p)) ps))"
    by (metis prod.collapse)
  moreover from Cons.prems(2) have "real_of_int (fib (adjust cfg b0 (duration p))) < MAX_SLEEP cfg"
    by (rule adjust_below)
  ultimately show ?case by (rule Cons.IH)
qed

text \<open>
  C9. When the maximum sleep is above one second, every backoff index that the loop reaches
  from index 0 has its term below the maximum sleep, and so has the index after one more
  pass: the sleep that ends a completed pass is the term of that index, strictly below the
  maximum.
\<close>

theorem adaptive_sleep_below_max:
  "1 < MAX_SLEEP cfg \<Longrightarrow> main_loop cfg 0 ps = (Return b, acts) \<Longrightarrow>
   real_of_int (fib b) < MAX_SLEEP cfg \<and>
   (\<forall>p b1 acts1. loop_body cfg b p = (Return b1, acts1) \<longrightarrow>
      acts1 \<noteq> [] \<and> last acts1 = Sleep (fib b1) \<and> real_of_int (fib b1) < MAX_SLEEP cfg)"
proof -
  assume m: "1 < MAX_SLEEP cfg" and run: "main_loop cfg 0 ps = (Return b, acts)"
  from m have "real_of_int (fib 0) < MAX_SLEEP cfg" by (simp add: fib_0)
  with run have b: "real_of_int (fib b) < MAX_SLEEP cfg" by (rule main_loop_below)
  have "acts1 \<noteq> [] \<and> last acts1 = Sleep (fib b1) \<and> real_of_int (fib b1) < MAX_SLEEP cfg"
    if "loop_body cfg b p = (Return b1, acts1)" for p b1 acts1
  proof -
    from that have b1: "b1 = adjust cfg b (duration p)"
      and a: "acts1 = Balance (balance_cmd cfg (least_empty_dev_id (scan_devices (devices p)))) #
            (if ret p \<noteq> 0 then [Warning (out p), Sleep 30] else []) @
            [Sleep (fib (adjust cfg b (duration p)))]"
      by (auto simp: loop_body_cases split: sum.splits if_splits)
    from b have "real_of_int (fib (adjust cfg b (duration p))) < MAX_SLEEP cfg"
      by (rule adjust_below)
    with b1 a show ?thesis by simp
  qed
  with b show ?thesis by blast
qed

theorem adaptive_sleep_below_max_witness:
  "1 < MAX_SLEEP default_config \<and>
   main_loop default_config 0
     [\<lparr>devices = skewed_devices, ret = 0, out = ''Done'', duration = 75\<rparr>] =
     (Return 1, [Balance ''btrfs balance start -ddevid=1,limit=1 /media/btrfs'', Sleep 1]) \<and>
   real_of_int (fib 1) < MAX_SLEEP default_config"
proof -
  have m: "1 < MAX_SLEEP default_config" by (simp add: default_config_def)
  have a: "adjust default_config 0 75 = 1"
    by (simp add: adjust_def default_config_def fib_table)
  have run: "main_loop default_config 0
     [\<lparr>devices = skewed_devices, ret = 0, out = ''Done'', duration = 75\<rparr>] =
     (Return 1, [Balance ''btrfs balance start -ddevid=1,limit=1 /media/btrfs'', Sleep 1])"
    by (simp add: skewed_pass a fib_table)
  from adaptive_sleep_below_max [OF m run] m run show ?thesis by blast
qed

lemma spaced_pass:
  "1 \<le> s \<Longrightarrow>
   spaced False (Balance c # (if r \<noteq> (0::int) then [Warning w, Sleep 30] else []) @ [Sleep s] @ rest)
     = spaced False rest"
  by simp

lemma spaced_main_loop: "spaced False (snd (main_loop cfg b ps))"
proof (induction ps arbitrary: b)
  case Nil
  then show ?case by simp
next
  case (Cons p ps)
  have "1 \<le> fib (adjust cfg b (duration p))" by (rule fib_pos)
  from spaced_pass [OF this] Cons.IH show ?case
    by (simp add: main_loop_Cons loop_body_cases del: main_loop.simps split: sum.split)
qed

text \<open>
  C10. In what the loop does, no balance command follows another without a sleep of at least
  one second between them: every completed pass ends with a sleep of \<open>fib\<close> of the new index,
  every term of \<open>fib\<close> is at least 1, and the terms up to index 1 are 1.
\<close>

theorem sleep_between_balances:
  "spaced False (snd (main_loop cfg b ps)) \<and>
   (\<forall>p b1 acts. loop_body cfg b p = (Return b1, acts) \<longrightarrow>
      (\<exists>pre. acts = pre @ [Sleep (fib b1)]) \<and> 1 \<le> fib b1) \<and>
   (n \<le> 1 \<longrightarrow> fib n = 1)"
proof (intro conjI allI impI)
  show "spaced False (snd (main_loop cfg b ps))" by (rule spaced_main_loop)
next
  fix p b1 acts
  assume "loop_body cfg b p = (Return b1, acts)"
  then show "\<exists>pre. acts = pre @ [Sleep (fib b1)]"
    by (auto simp: loop_body_cases split: sum.splits if_splits)
next
  fix p b1 acts
  show "1 \<le> fib b1" by (rule fib_pos)
next
  assume "n \<le> 1"
  then show "fib n = 1" by (simp add: fib_small)
qed

theorem sleep_between_balances_witness:
  "snd (main_loop default_config 0
     [\<lparr>devices = skewed_devices, ret = 0, out = ''Done'', duration = 45\<rparr>,
      \<lparr>devices = skewed_devices, ret = 0, out = ''Done'', duration = 45\<rparr>]) =
     [Balance ''btrfs balance start -ddevid=1,limit=1 /media/btrfs'', Sleep 1,
      Balance ''btrfs balance start -ddevid=1,limit=1 /media/btrfs'', Sleep 1] \<and>
   spaced False (snd (main_loop default_config 0
     [\<lparr>devices = skewed_devices, ret = 0, out = ''Done'', duration = 45\<rparr>,
      \<lparr>devices = skewed_devices, ret = 0, out = ''Done'', duration = 45\<rparr>])) \<and>
   (0::int) \<le> 1 \<and> fib 0 = 1"
proof -
  have a: "adjust default_config 0 45 = 0" by (simp add: adjust_def default_config_def)
  have t: "snd (main_loop default_config 0
     [\<lparr>devices = skewed_devices, ret = 0, out = ''Done'', duration = 45\<rparr>,
      \<lparr>devices = skewed_devices, ret = 0, out = ''Done'', duration = 45\<rparr>]) =
     [Balance ''btrfs balance start -ddevid=1,limit=1 /media/btrfs'', Sleep 1,
      Balance ''btrfs balance start -ddevid=1,limit=1 /media/btrfs'', Sleep 1]"
    by (simp add: skewed_pass a fib_0)
  note th = sleep_between_balances [of default_config 0
     "[\<lparr>devices = skewed_devices, ret = 0, out = ''Done'', duration = 45\<rparr>,
      \<lparr>devices = skewed_devices, ret = 0, out = ''Done'', duration = 45\<rparr>]" 0]
  have z: "(0::int) \<le> 1" by simp
  from th [THEN conjunct2, THEN conjunct2, THEN mp, OF z] th [THEN conjunct1] t z
  show ?thesis by blast
qed

end
